theory Spec2Isabelle
  imports Main
begin

section \<open>HomebridgeMQTTBase: values, effects and the instance\<close>

text \<open>
  The class \<open>HomebridgeMQTTBase\<close> of \<open>src/HomebridgeMQTTBase.js\<close> is embedded with
  explicit state passing. The own properties of a JavaScript object are an association
  list, in the insertion order of the string keys; a value is a JSON value (numbers are
  kept to the integers: no handler computes with them).
\<close>

datatype jsvalue =
    JNull
  | JBool bool
  | JNum int
  | JStr string
  | JArr "jsvalue list"
  | JObj "(string \<times> jsvalue) list"

type_synonym obj = "(string \<times> jsvalue) list"

text \<open>
  The prototype of the state object. It starts as \<open>Object.prototype\<close>; an assignment to
  the key \<open>__proto__\<close> can replace it by \<open>null\<close>, by an object or by an array.
\<close>

datatype prototype =
    Object_prototype
  | Null_prototype
  | Object_value obj
  | Array_value "jsvalue list"

text \<open>
  The parameter \<open>callback\<close> of \<open>setStateAndEmit\<close> is pushed as it comes: \<open>None\<close> stands
  for a falsy value (\<open>undefined\<close> when the argument is left out, or \<open>null\<close>), \<open>Some c\<close>
  for the function of the consumer named \<open>c\<close>.
\<close>

type_synonym callback = "nat option"

datatype jserror = Error string

text \<open>
  A thrown exception: the \<open>SyntaxError\<close> of \<open>JSON.parse\<close>, or what a callback of the
  consumer throws.
\<close>

datatype exn = SyntaxError | Thrown string

text \<open>
  What a callback does when the completion handler calls it: it may call
  \<open>setStateAndEmit\<close> of the instance, any number of times, and then it returns or throws.
  This is all a callback does to the instance in the model; a callback that reaches into
  the instance in another way is not described. A truthy value that is not a function
  is a callback that throws at once: calling it throws a \<open>TypeError\<close>. The consumer's
  callbacks are a parameter: what each does, given the argument it is called with.
\<close>

record reaction =
  calls_back :: "(obj \<times> callback) list"
  throws :: "exn option"

type_synonym consumer = "nat \<Rightarrow> jserror option \<Rightarrow> reaction"

text \<open>
  What the instance does to its collaborators, in the order it does it: a call of the
  logger \<open>_log\<close>, a call of \<open>client.publish(topic, message, { qos: 2 }, handler)\<close>, a
  call of a queued callback (with the error it is given, \<open>None\<close> for no argument), a
  call of the hook \<open>onRemoteStateChange\<close>, and an exception that leaves the completion
  handler, to the client that called it. The logger and the client return normally.
\<close>

datatype effect =
    Log string
  | Publish "string option" string
  | Invoke nat "jserror option"
  | RemoteStateChange jsvalue
  | Uncaught exn

text \<open>
  The built-ins \<open>JSON.stringify\<close> and \<open>JSON.parse\<close> are parameters of the model;
  \<open>JSON_parse\<close> returns \<open>None\<close> where \<open>JSON.parse\<close> throws a \<open>SyntaxError\<close>.
\<close>

record builtins =
  JSON_stringify :: "jsvalue \<Rightarrow> string"
  JSON_parse :: "string \<Rightarrow> jsvalue option"

text \<open>
  The fields of the instance. \<open>state\<close> (the own properties of \<open>this.state\<close>),
  \<open>callbackQueue\<close>, \<open>outboundTopic\<close> and \<open>inboundTopic\<close> are the fields of the class (a
  topic left out of the configuration is \<open>undefined\<close>, here \<open>None\<close>).
  \<open>statePrototype\<close> is the prototype of \<open>this.state\<close>. \<open>timer\<close> is the state of the
  function debounced by \<open>lodash/debounce\<close> with a wait of 20 ms: \<open>Some d\<close> when a
  trailing call is pending and becomes due at time \<open>d\<close>. \<open>inflight\<close> counts the
  publishes handed to the client whose completion handler the client has not called
  yet. \<open>trace\<close> is the list of effects so far, oldest first.
\<close>

record base =
  state :: obj
  statePrototype :: prototype
  callbackQueue :: "callback list"
  outboundTopic :: "string option"
  inboundTopic :: "string option"
  timer :: "nat option"
  inflight :: nat
  trace :: "effect list"

definition new_base :: "string option \<Rightarrow> string option \<Rightarrow> base" where
  "new_base outbound inbound =
     \<lparr>state = [], statePrototype = Object_prototype, callbackQueue = [],
      outboundTopic = outbound, inboundTopic = inbound,
      timer = None, inflight = 0, trace = []\<rparr>"

section \<open>The handlers\<close>

definition log :: "string \<Rightarrow> base \<Rightarrow> base" where
  "log m s = s\<lparr>trace := trace s @ [Log m]\<rparr>"

text \<open>A template literal prints an undefined topic as \<open>undefined\<close>.\<close>

fun show_topic :: "string option \<Rightarrow> string" where
  "show_topic None = ''undefined''"
| "show_topic (Some t) = t"

text \<open>
  Writing an own property: an existing key keeps its place and takes the new value, a
  new key is added at the end (keys that are array indices, which JavaScript lists
  first, are not told apart; no handler depends on the order).
\<close>

fun put_own :: "string \<Rightarrow> jsvalue \<Rightarrow> obj \<Rightarrow> obj" where
  "put_own k v [] = [(k, v)]"
| "put_own k v (p # ps) = (if fst p = k then (k, v) # ps else p # put_own k v ps)"

text \<open>
  The accessor \<open>__proto__\<close> of \<open>Object.prototype\<close>. An assignment to the key
  \<open>__proto__\<close> of an object without such an own property reaches the setter of the
  accessor when the prototype chain leads to \<open>Object.prototype\<close> and has no data
  property of that name before it. The setter replaces the prototype by an object, an
  array or \<open>null\<close>, and ignores every other value.
\<close>

fun reaches_proto_setter :: "prototype \<Rightarrow> bool" where
  "reaches_proto_setter Object_prototype = True"
| "reaches_proto_setter Null_prototype = False"
| "reaches_proto_setter (Object_value kvs) = (''__proto__'' \<notin> fst ` set kvs)"
| "reaches_proto_setter (Array_value xs) = True"

fun proto_setter :: "jsvalue \<Rightarrow> prototype \<Rightarrow> prototype" where
  "proto_setter (JObj kvs) p = Object_value kvs"
| "proto_setter (JArr xs) p = Array_value xs"
| "proto_setter JNull p = Null_prototype"
| "proto_setter v p = p"

text \<open>
  \<open>target[key] = value\<close>, as \<open>Object.assign\<close> does it: an own property is written; the
  key \<open>__proto__\<close> goes to the setter where the chain reaches it, and then adds no own
  property; every other key becomes a new own property (the properties an object
  inherits from a JSON value, from \<open>Array.prototype\<close> or from \<open>Object.prototype\<close> are
  writable data properties, but for \<open>__proto__\<close>).
\<close>

fun set_property :: "string \<Rightarrow> jsvalue \<Rightarrow> obj \<times> prototype \<Rightarrow> obj \<times> prototype" where
  "set_property k v (own, proto) =
     (if k \<in> fst ` set own then (put_own k v own, proto)
      else if k = ''__proto__'' \<and> reaches_proto_setter proto then (own, proto_setter v proto)
      else (put_own k v own, proto))"

text \<open>\<open>Object.assign(target, source)\<close>: every own property of the source, in order, is set on the target.\<close>

definition Object_assign :: "obj \<times> prototype \<Rightarrow> obj \<Rightarrow> obj \<times> prototype" where
  "Object_assign target source = foldl (\<lambda>acc (k, v). set_property k v acc) target source"

text \<open>
  \<open>sendMessage(payload, callback)\<close>. The callback is always the completion handler of
  \<open>sendStateToClients\<close>; handing it to the client is counted in \<open>inflight\<close>.
  \<open>JSON.stringify\<close> prints the own properties of the payload.
\<close>

definition sendMessage :: "builtins \<Rightarrow> obj \<Rightarrow> base \<Rightarrow> base" where
  "sendMessage js payload s =
     (let message = JSON_stringify js (JObj payload);
          s1 = log (''Publishing '' @ message @ '' to '' @ show_topic (inboundTopic s)) s
      in s1\<lparr>trace := trace s1 @ [Publish (inboundTopic s1) message],
             inflight := inflight s1 + 1\<rparr>)"

text \<open>The function wrapped by \<open>debounce\<close>: \<open>this.sendMessage(this.state, handler)\<close>.\<close>

definition sendStateToClients_body :: "builtins \<Rightarrow> base \<Rightarrow> base" where
  "sendStateToClients_body js s = sendMessage js (state s) s"

definition wait :: nat where
  "wait = 20"

text \<open>
  Modelled from the spec: \<open>lodash/debounce\<close> is a dependency and not part of the
  source. The spec's quiet-period timer is a single-shot trigger that every call
  restarts, with a delay of 20; \<open>debounce(f, 20)\<close> with the default options is that: it
  calls \<open>f\<close> on the trailing edge only, once \<open>wait\<close> ms have passed since the last call
  of the debounced function. A call of the debounced \<open>sendStateToClients\<close> at time
  \<open>now\<close> (in ms) notes when the pending call becomes due.
\<close>

definition sendStateToClients :: "nat \<Rightarrow> base \<Rightarrow> base" where
  "sendStateToClients now s = s\<lparr>timer := Some (now + wait)\<rparr>"

text \<open>
  Modelled from the spec: the timeout of \<open>debounce\<close> running at time \<open>now\<close>. It calls the
  wrapped function when the pending call is due (or when the clock has gone back behind
  the last call), and waits on otherwise.
\<close>

definition timerExpired :: "builtins \<Rightarrow> nat \<Rightarrow> base \<Rightarrow> base" where
  "timerExpired js now s =
     (case timer s of
        None \<Rightarrow> s
      | Some due \<Rightarrow>
          if due \<le> now \<or> now + wait < due then sendStateToClients_body js (s\<lparr>timer := None\<rparr>)
          else s)"

definition setStateAndEmit :: "builtins \<Rightarrow> nat \<Rightarrow> obj \<Rightarrow> callback \<Rightarrow> base \<Rightarrow> base" where
  "setStateAndEmit js now partial callback s =
     (let s1 = log (''Setting state '' @ JSON_stringify js (JObj partial)) s;
          s2 = s1\<lparr>callbackQueue := callbackQueue s1 @ [callback]\<rparr>;
          assigned = Object_assign (state s2, statePrototype s2) partial;
          s3 = s2\<lparr>state := fst assigned, statePrototype := snd assigned\<rparr>
      in sendStateToClients now s3)"

text \<open>
  The call \<open>callback(error)\<close> (or \<open>callback()\<close>) of the completion handler at time
  \<open>now\<close>: the call is recorded, and the callback makes its calls of \<open>setStateAndEmit\<close>.
\<close>

definition invoke :: "builtins \<Rightarrow> consumer \<Rightarrow> nat \<Rightarrow> nat \<Rightarrow> jserror option \<Rightarrow> base \<Rightarrow> base" where
  "invoke js does now callback error s =
     foldl (\<lambda>acc (partial, cb). setStateAndEmit js now partial cb acc)
       (s\<lparr>trace := trace s @ [Invoke callback error]\<rparr>)
       (calls_back (does callback error))"

text \<open>
  The completion handler \<open>error => { ... }\<close> given to \<open>sendMessage\<close>, run at time \<open>now\<close>.
  Its body is the loop \<open>while (callback = this.callbackQueue.shift())\<close>, on the queue of
  the instance as it is at each turn: \<open>shift\<close> takes the head off; the loop ends when
  the queue is empty (\<open>shift\<close> gives \<open>undefined\<close>) and when the entry taken off is
  falsy. A callback that throws ends the handler with its exception (\<open>Inl\<close>), the
  instance staying as it is then. A falsy \<open>error\<close> is \<open>None\<close>: the callbacks are then
  called with no argument. The result is \<open>None\<close> when the loop never ends.
\<close>

partial_function (option) publishComplete ::
  "builtins \<Rightarrow> consumer \<Rightarrow> nat \<Rightarrow> jserror option \<Rightarrow> base \<Rightarrow> ((exn + unit) \<times> base) option" where
  "publishComplete js does now error s =
     (case callbackQueue s of
        [] \<Rightarrow> Some (Inr (), s)
      | None # queue \<Rightarrow> Some (Inr (), s\<lparr>callbackQueue := queue\<rparr>)
      | Some callback # queue \<Rightarrow>
          (case throws (does callback error) of
             Some x \<Rightarrow> Some (Inl x, invoke js does now callback error (s\<lparr>callbackQueue := queue\<rparr>))
           | None \<Rightarrow>
               publishComplete js does now error
                 (invoke js does now callback error (s\<lparr>callbackQueue := queue\<rparr>))))"

text \<open>
  \<open>onRemoteStateChange\<close>: the method of the base class has an empty body (a consumer
  overrides it); the call is recorded.
\<close>

definition onRemoteStateChange :: "jsvalue \<Rightarrow> base \<Rightarrow> base" where
  "onRemoteStateChange remote s = s\<lparr>trace := trace s @ [RemoteStateChange remote]\<rparr>"

text \<open>
  \<open>onMessage(topic, buffer)\<close>, with the buffer given as its text in UTF-8. The result is
  \<open>Inl\<close> of the exception when the handler throws, with the instance as the throw
  leaves it.
\<close>

definition onMessage :: "builtins \<Rightarrow> string \<Rightarrow> string \<Rightarrow> base \<Rightarrow> (exn + unit) \<times> base" where
  "onMessage js topic payload s =
     (if Some topic \<noteq> outboundTopic s then (Inr (), s)
      else
        let s1 = log (''Received '' @ payload @ '' from '' @ show_topic (outboundTopic s)) s
        in case JSON_parse js payload of
             None \<Rightarrow> (Inl SyntaxError, s1)
           | Some remote \<Rightarrow> (Inr (), onRemoteStateChange remote s1))"

section \<open>The event loop\<close>

text \<open>
  What can happen to the coalescer, one event at a time (the program is single-threaded):
  a consumer calls \<open>setStateAndEmit\<close> at some time, the timeout of \<open>debounce\<close> runs at
  some time, or the client calls, at some time, the completion handler of a publish it
  was given. The client calls a handler only for a publish that is in flight. A step is
  \<open>None\<close> when the handler never returns. An exception that leaves the completion
  handler is recorded; the run goes on with the instance as the exception left it, which
  is what happens next in a process that survives the exception.
\<close>

datatype event =
    SetStateAndEmit nat obj callback
  | TimerExpired nat
  | PublishDone nat "jserror option"

fun thrown :: "(exn + unit) \<times> base \<Rightarrow> base" where
  "thrown (Inl x, s) = s\<lparr>trace := trace s @ [Uncaught x]\<rparr>"
| "thrown (Inr u, s) = s"

fun step :: "builtins \<Rightarrow> consumer \<Rightarrow> event \<Rightarrow> base \<Rightarrow> base option" where
  "step js does (SetStateAndEmit now partial callback) s =
     Some (setStateAndEmit js now partial callback s)"
| "step js does (TimerExpired now) s = Some (timerExpired js now s)"
| "step js does (PublishDone now error) s =
     (if inflight s = 0 then Some s
      else map_option thrown (publishComplete js does now error (s\<lparr>inflight := inflight s - 1\<rparr>)))"

fun run :: "builtins \<Rightarrow> consumer \<Rightarrow> event list \<Rightarrow> base \<Rightarrow> base option" where
  "run js does [] s = Some s"
| "run js does (e # es) s =
     (case step js does e s of None \<Rightarrow> None | Some s' \<Rightarrow> run js does es s')"

section \<open>Observing a run\<close>

text \<open>What a list of effects holds: the callbacks called with their argument, the messages published, the values given to the hook.\<close>

fun called :: "effect list \<Rightarrow> (nat \<times> jserror option) list" where
  "called [] = []"
| "called (Invoke c e # tr) = (c, e) # called tr"
| "called (x # tr) = called tr"

fun published :: "effect list \<Rightarrow> string list" where
  "published [] = []"
| "published (Publish topic message # tr) = message # published tr"
| "published (x # tr) = published tr"

fun hooked :: "effect list \<Rightarrow> jsvalue list" where
  "hooked [] = []"
| "hooked (RemoteStateChange v # tr) = v # hooked tr"
| "hooked (x # tr) = hooked tr"

text \<open>The same of a run, when it ends; and the queue it leaves.\<close>

definition called_by :: "base option \<Rightarrow> (nat \<times> jserror option) list option" where
  "called_by r = map_option (\<lambda>s. called (trace s)) r"

definition published_by :: "base option \<Rightarrow> string list option" where
  "published_by r = map_option (\<lambda>s. published (trace s)) r"

definition queue_of :: "base option \<Rightarrow> callback list option" where
  "queue_of r = map_option callbackQueue r"

text \<open>The functions among the entries of a queue, and the functions a list of events registers.\<close>

fun callbacks_of :: "callback list \<Rightarrow> nat list" where
  "callbacks_of [] = []"
| "callbacks_of (None # q) = callbacks_of q"
| "callbacks_of (Some c # q) = c # callbacks_of q"


text \<open>
  Kinds of queue entries, for a given argument of the call: \<open>returning\<close>, a function
  that returns normally; \<open>quiet\<close>, a function that returns normally and leaves the
  instance alone (it makes no call of \<open>setStateAndEmit\<close>). And a consumer none of whose
  callbacks ever calls \<open>setStateAndEmit\<close>.
\<close>

fun returning :: "consumer \<Rightarrow> jserror option \<Rightarrow> callback \<Rightarrow> bool" where
  "returning does error None = False"
| "returning does error (Some c) = (throws (does c error) = None)"

fun quiet :: "consumer \<Rightarrow> jserror option \<Rightarrow> callback \<Rightarrow> bool" where
  "quiet does error None = False"
| "quiet does error (Some c) = (calls_back (does c error) = [] \<and> throws (does c error) = None)"

definition never_calls_back :: "consumer \<Rightarrow> bool" where
  "never_calls_back does \<longleftrightarrow> (\<forall>c e. calls_back (does c e) = [])"

text \<open>
  A group of calls of \<open>setStateAndEmit\<close>, each with its time, its partial state and its
  callback, and what such a group amounts to: its events, its partial states, its
  callbacks and its log lines.
\<close>

type_synonym call = "nat \<times> obj \<times> callback"

definition calls :: "call list \<Rightarrow> event list" where
  "calls cs = map (\<lambda>(now, partial, callback). SetStateAndEmit now partial callback) cs"

definition partials :: "call list \<Rightarrow> obj list" where
  "partials cs = map (\<lambda>(now, partial, callback). partial) cs"

definition callbacks :: "call list \<Rightarrow> callback list" where
  "callbacks cs = map (\<lambda>(now, partial, callback). callback) cs"

definition setting_logs :: "builtins \<Rightarrow> call list \<Rightarrow> effect list" where
  "setting_logs js cs =
     map (\<lambda>(now, partial, callback). Log (''Setting state '' @ JSON_stringify js (JObj partial))) cs"

text \<open>The two effects of \<open>sendMessage\<close> on the state of the instance \<open>s\<close>.\<close>

definition publishing :: "builtins \<Rightarrow> base \<Rightarrow> effect list" where
  "publishing js s =
     [Log (''Publishing '' @ JSON_stringify js (JObj (state s)) @ '' to '' @ show_topic (inboundTopic s)),
      Publish (inboundTopic s) (JSON_stringify js (JObj (state s)))]"

text \<open>The state object of \<open>s\<close> after \<open>Object.assign\<close> with each of the partial states, from the left.\<close>

definition merged :: "base \<Rightarrow> obj list \<Rightarrow> obj \<times> prototype" where
  "merged s ps = foldl Object_assign (state s, statePrototype s) ps"





section \<open>Fixtures for the examples\<close>

text \<open>
  The theorems below hold for every \<open>JSON.stringify\<close> and \<open>JSON.parse\<close>. The examples
  need one of each. \<open>stringify\<close> prints a value as \<open>JSON.stringify\<close> does, for
  strings without control characters. \<open>sample_js\<close> parses the three documents of
  \<open>sample_documents\<close> back and nothing else: the examples give it these, and the text
  \<open>{oops\<close>, which \<open>JSON.parse\<close> rejects too.
\<close>

fun show_nat :: "nat \<Rightarrow> string" where
  "show_nat n =
     (if n < 10 then [''0123456789'' ! n] else show_nat (n div 10) @ [''0123456789'' ! (n mod 10)])"

definition quote :: "string \<Rightarrow> string" where
  "quote s =
     [CHR 0x22] @
     concat (map (\<lambda>c. if c = CHR 0x22 \<or> c = CHR 0x5C then [CHR 0x5C, c] else [c]) s) @
     [CHR 0x22]"

fun commas :: "string list \<Rightarrow> string" where
  "commas [] = []"
| "commas [x] = x"
| "commas (x # xs) = x @ '','' @ commas xs"

fun stringify :: "jsvalue \<Rightarrow> string" where
  "stringify JNull = ''null''"
| "stringify (JBool b) = (if b then ''true'' else ''false'')"
| "stringify (JNum n) = (if n < 0 then ''-'' @ show_nat (nat (- n)) else show_nat (nat n))"
| "stringify (JStr s) = quote s"
| "stringify (JArr xs) = ''['' @ commas (map stringify xs) @ '']''"
| "stringify (JObj kvs) =
     ''{'' @ commas (map (\<lambda>(k, v). quote k @ '':'' @ stringify v) kvs) @ ''}''"

definition sample_documents :: "jsvalue list" where
  "sample_documents = [JObj [], JObj [(''foo'', JStr ''bar'')], JObj [(''on'', JBool True)]]"

definition sample_js :: builtins where
  "sample_js =
     \<lparr>JSON_stringify = stringify,
      JSON_parse = map_of (map (\<lambda>v. (stringify v, v)) sample_documents)\<rparr>"

text \<open>The instance of the repository's tests, with their topics, and their error.\<close>

definition test_base :: base where
  "test_base = new_base (Some ''foo/bar'') (Some ''bar/foo'')"

definition failed :: jserror where
  "failed = Error ''Failed to send message!''"

text \<open>
  The callbacks of the examples. Callback 7 retries: called with an error, it calls
  \<open>setStateAndEmit\<close> with itself as the callback. Callback 8 calls \<open>setStateAndEmit\<close>
  once, with callback 3. Callback 9 throws. Every other callback returns and leaves the
  instance alone.
\<close>

definition sample_consumer :: consumer where
  "sample_consumer c e =
     (if c = 7 then
        \<lparr>calls_back = (case e of None \<Rightarrow> [] | Some err \<Rightarrow> [([], Some 7)]), throws = None\<rparr>
      else if c = 8 then \<lparr>calls_back = [([(''level'', JNum 40)], Some 3)], throws = None\<rparr>
      else if c = 9 then \<lparr>calls_back = [], throws = Some (Thrown ''boom'')\<rparr>
      else \<lparr>calls_back = [], throws = None\<rparr>)"

section \<open>Basic facts\<close>

lemmas observer_defs = called_by_def published_by_def queue_of_def

lemma called_append: "called (a @ b) = called a @ called b"
  by (induction a rule: called.induct) simp_all

lemma published_append: "published (a @ b) = published a @ published b"
  by (induction a rule: published.induct) simp_all

lemma hooked_append: "hooked (a @ b) = hooked a @ hooked b"
  by (induction a rule: hooked.induct) simp_all



lemma called_invocations: "called (map (\<lambda>c. Invoke c e) cs) = map (\<lambda>c. (c, e)) cs"
  by (induction cs) simp_all

lemma published_invocations: "published (map (\<lambda>c. Invoke c e) cs) = []"
  by (induction cs) simp_all

subsection \<open>Assignments\<close>

lemma put_own_lookup: "map_of (put_own k v ps) = (map_of ps)(k \<mapsto> v)"
  by (induction ps) auto

lemma set_property_other:
  "j \<noteq> k \<Longrightarrow> map_of (fst (set_property j v target)) k = map_of (fst target) k"
  by (cases target) (simp add: put_own_lookup)

lemma set_property_same:
  "k \<noteq> ''__proto__'' \<Longrightarrow> map_of (fst (set_property k v target)) k = Some v"
  by (cases target) (simp add: put_own_lookup)

lemma Object_assign_Nil: "Object_assign target [] = target"
  by (simp add: Object_assign_def)

lemma Object_assign_Cons:
  "Object_assign target ((k, v) # source) = Object_assign (set_property k v target) source"
  by (simp add: Object_assign_def)

lemma Object_assign_untouched:
  "k \<notin> fst ` set source \<Longrightarrow> map_of (fst (Object_assign target source)) k = map_of (fst target) k"
proof (induction source arbitrary: target)
  case Nil
  show ?case by (simp add: Object_assign_Nil)
next
  case (Cons p source)
  obtain j v where p: "p = (j, v)" by (cases p)
  have "j \<noteq> k" and "k \<notin> fst ` set source" using Cons.prems by (auto simp: p)
  then show ?case
    using Cons.IH [of "set_property j v target"]
    by (simp add: p Object_assign_Cons set_property_other)
qed

lemma Object_assign_lookup:
  "k \<noteq> ''__proto__'' \<Longrightarrow>
   map_of (fst (Object_assign target source)) k = (map_of (fst target) ++ map_of (rev source)) k"
proof (induction source arbitrary: target)
  case Nil
  show ?case by (simp add: Object_assign_Nil)
next
  case (Cons p source)
  obtain j v where p: "p = (j, v)" by (cases p)
  have "map_of (fst (Object_assign (set_property j v target) source)) k =
      (map_of (fst (set_property j v target)) ++ map_of (rev source)) k"
    using Cons.prems by (rule Cons.IH)
  also have "\<dots> = (map_of (fst target) ++ map_of (rev source @ [(j, v)])) k"
    using Cons.prems set_property_other [of j k v target] set_property_same [of k v target]
    by (cases "j = k") (auto simp: map_add_def split: option.splits)
  finally show ?case by (simp add: p Object_assign_Cons)
qed

lemma merge_lookup:
  "k \<noteq> ''__proto__'' \<Longrightarrow>
   map_of (fst (foldl Object_assign target ps)) k =
   foldl (\<lambda>m p. m ++ map_of (rev p)) (map_of (fst target)) ps k"
proof (induction ps arbitrary: target rule: rev_induct)
  case Nil
  show ?case by simp
next
  case (snoc p ps)
  then show ?case by (auto simp: Object_assign_lookup map_add_def split: option.splits)
qed

lemma merge_untouched:
  "\<forall>p\<in>set ps. k \<notin> fst ` set p \<Longrightarrow>
   map_of (fst (foldl Object_assign target ps)) k = map_of (fst target) k"
proof (induction ps arbitrary: target)
  case Nil
  show ?case by simp
next
  case (Cons p ps)
  then show ?case by (simp add: Object_assign_untouched)
qed

lemma merge_last_writer:
  assumes "ps = before @ p # after" and "k \<in> fst ` set p" and "k \<noteq> ''__proto__''"
    and "\<forall>q\<in>set after. k \<notin> fst ` set q"
  shows "map_of (fst (foldl Object_assign target ps)) k = map_of (rev p) k"
proof -
  let ?t = "foldl Object_assign target before"
  have "k \<in> fst ` set (rev p)" using assms(2) by simp
  then obtain v where v: "map_of (rev p) k = Some v"
    by (metis map_of_eq_None_iff not_Some_eq)
  have "map_of (fst (foldl Object_assign target ps)) k = map_of (fst (Object_assign ?t p)) k"
    using merge_untouched [OF assms(4)] by (simp add: assms(1))
  then show ?thesis
    using assms(3) by (simp add: Object_assign_lookup map_add_def v)
qed

lemma published_setting_logs: "published (setting_logs js cs) = []"
  by (induction cs) (simp_all add: setting_logs_def case_prod_beta)


lemma published_publishing: "published (publishing js s) = [JSON_stringify js (JObj (state s))]"
  by (simp add: publishing_def)


lemma setStateAndEmit_eq:
  "setStateAndEmit js now partial callback s =
     s\<lparr>state := fst (Object_assign (state s, statePrototype s) partial),
       statePrototype := snd (Object_assign (state s, statePrototype s) partial),
       callbackQueue := callbackQueue s @ [callback],
       timer := Some (now + wait),
       trace := trace s @ [Log (''Setting state '' @ JSON_stringify js (JObj partial))]\<rparr>"
  by (simp add: setStateAndEmit_def log_def sendStateToClients_def Let_def)

lemma timerExpired_due:
  "timer s = Some due \<Longrightarrow> due \<le> now \<Longrightarrow>
   timerExpired js now s =
     s\<lparr>timer := None, inflight := inflight s + 1, trace := trace s @ publishing js s\<rparr>"
  by (simp add: timerExpired_def sendStateToClients_body_def sendMessage_def log_def Let_def
      publishing_def)


lemma timerExpired_idle: "timer s = None \<Longrightarrow> timerExpired js now s = s"
  by (simp add: timerExpired_def)

subsection \<open>The completion handler\<close>

lemma publishComplete_empty:
  "callbackQueue s = [] \<Longrightarrow> publishComplete js does now e s = Some (Inr (), s)"
  by (subst publishComplete.simps) simp

lemma publishComplete_falsy:
  "callbackQueue s = None # q \<Longrightarrow>
   publishComplete js does now e s = Some (Inr (), s\<lparr>callbackQueue := q\<rparr>)"
  by (subst publishComplete.simps) simp


lemma publishComplete_returns:
  "callbackQueue s = Some c # q \<Longrightarrow> throws (does c e) = None \<Longrightarrow>
   publishComplete js does now e s =
   publishComplete js does now e (invoke js does now c e (s\<lparr>callbackQueue := q\<rparr>))"
  by (subst publishComplete.simps) simp

lemma invoke_alone:
  "calls_back (does c e) = [] \<Longrightarrow> invoke js does now c e s = s\<lparr>trace := trace s @ [Invoke c e]\<rparr>"
  by (simp add: invoke_def)

text \<open>What the calls a callback makes add to the queue, and that they call nothing.\<close>

lemma reenter_queue:
  "callbackQueue (foldl (\<lambda>acc (partial, cb). setStateAndEmit js now partial cb acc) s cs) =
   callbackQueue s @ map snd cs"
  by (induction cs arbitrary: s) (simp_all add: setStateAndEmit_eq case_prod_beta)

lemma reenter_called:
  "called (trace (foldl (\<lambda>acc (partial, cb). setStateAndEmit js now partial cb acc) s cs)) =
   called (trace s)"
  by (induction cs arbitrary: s) (simp_all add: setStateAndEmit_eq case_prod_beta called_append)

lemma invoke_queue:
  "callbackQueue (invoke js does now c e s) = callbackQueue s @ map snd (calls_back (does c e))"
  by (simp add: invoke_def reenter_queue)

lemma invoke_called:
  "called (trace (invoke js does now c e s)) = called (trace s) @ [(c, e)]"
  by (simp add: invoke_def reenter_called called_append)

lemma publishComplete_quiet_prefix:
  "callbackQueue s = pre @ rest \<Longrightarrow> list_all (quiet does e) pre \<Longrightarrow>
   publishComplete js does now e s =
   publishComplete js does now e
     (s\<lparr>callbackQueue := rest, trace := trace s @ map (\<lambda>c. Invoke c e) (callbacks_of pre)\<rparr>)"
proof (induction pre arbitrary: s)
  case Nil
  then have "rest = callbackQueue s" by simp
  then show ?case by simp
next
  case (Cons entry pre)
  then obtain c where c: "entry = Some c" and q: "calls_back (does c e) = []"
      and t: "throws (does c e) = None"
    by (cases entry) auto
  let ?s1 = "s\<lparr>callbackQueue := pre @ rest, trace := trace s @ [Invoke c e]\<rparr>"
  have "publishComplete js does now e s = publishComplete js does now e ?s1"
    using Cons.prems(1) t q
    by (simp add: publishComplete_returns [of s c "pre @ rest"] c invoke_alone)
  also have "\<dots> = publishComplete js does now e
     (?s1\<lparr>callbackQueue := rest, trace := trace ?s1 @ map (\<lambda>c. Invoke c e) (callbacks_of pre)\<rparr>)"
    using Cons.prems(2) by (intro Cons.IH) simp_all
  finally show ?case by (simp add: c)
qed

lemma publishComplete_quiet:
  assumes "list_all (quiet does e) (callbackQueue s)"
  shows "publishComplete js does now e s =
     Some (Inr (), s\<lparr>callbackQueue := [],
       trace := trace s @ map (\<lambda>c. Invoke c e) (callbacks_of (callbackQueue s))\<rparr>)"
  using publishComplete_quiet_prefix [of s "callbackQueue s" "[]" does e js now] assms
  by (simp add: publishComplete_empty)

lemma publishComplete_quiet_stop:
  assumes "callbackQueue s = pre @ None # post" and "list_all (quiet does e) pre"
  shows "publishComplete js does now e s =
     Some (Inr (), s\<lparr>callbackQueue := post,
       trace := trace s @ map (\<lambda>c. Invoke c e) (callbacks_of pre)\<rparr>)"
  using publishComplete_quiet_prefix [of s pre "None # post" does e js now] assms
  by (simp add: publishComplete_falsy)

text \<open>
  Callbacks that return, whatever calls they make, up to a falsy entry: the handler calls
  them, takes the falsy entry off and returns; what they pushed is queued behind the
  rest.
\<close>

lemma publishComplete_returning_stop:
  "callbackQueue s = map Some cs @ None # post \<Longrightarrow> list_all (returning does e) (map Some cs) \<Longrightarrow>
   \<exists>s'. publishComplete js does now e s = Some (Inr (), s') \<and>
        called (trace s') = called (trace s) @ map (\<lambda>c. (c, e)) cs \<and>
        callbackQueue s' = post @ concat (map (\<lambda>c. map snd (calls_back (does c e))) cs)"
proof (induction cs arbitrary: s post)
  case Nil
  then show ?case by (simp add: publishComplete_falsy)
next
  case (Cons c cs)
  let ?s1 = "invoke js does now c e (s\<lparr>callbackQueue := map Some cs @ None # post\<rparr>)"
  have t: "throws (does c e) = None" and rest: "list_all (returning does e) (map Some cs)"
    using Cons.prems(2) by simp_all
  have q1: "callbackQueue ?s1 = map Some cs @ None # (post @ map snd (calls_back (does c e)))"
    by (simp add: invoke_queue)
  obtain s' where s': "publishComplete js does now e ?s1 = Some (Inr (), s')"
      "called (trace s') = called (trace ?s1) @ map (\<lambda>c. (c, e)) cs"
      "callbackQueue s' = (post @ map snd (calls_back (does c e))) @
         concat (map (\<lambda>c. map snd (calls_back (does c e))) cs)"
    using Cons.IH [OF q1 rest] by blast
  have "publishComplete js does now e s = publishComplete js does now e ?s1"
    using Cons.prems(1) t by (simp add: publishComplete_returns [of s c "map Some cs @ None # post"])
  then show ?case
    using s' by (simp add: invoke_called)
qed

lemma run_append:
  "run js does (a @ b) s = (case run js does a s of None \<Rightarrow> None | Some s' \<Rightarrow> run js does b s')"
  by (induction a arbitrary: s) (simp_all split: option.splits)

lemma run_calls:
  "run js does (calls cs) s =
     Some (s\<lparr>state := fst (merged s (partials cs)),
       statePrototype := snd (merged s (partials cs)),
       callbackQueue := callbackQueue s @ callbacks cs,
       timer := (if cs = [] then timer s else Some (fst (last cs) + wait)),
       trace := trace s @ setting_logs js cs\<rparr>)"
proof (induction cs arbitrary: s)
  case Nil
  show ?case by (simp add: calls_def partials_def callbacks_def setting_logs_def merged_def)
next
  case (Cons c cs)
  obtain now partial callback where c: "c = (now, partial, callback)" by (cases c)
  have "run js does (calls (c # cs)) s =
      run js does (calls cs) (setStateAndEmit js now partial callback s)"
    by (simp add: calls_def c)
  then show ?case
    by (simp add: Cons.IH setStateAndEmit_eq c partials_def callbacks_def setting_logs_def
        merged_def)
qed

lemma run_calls_timer:
  assumes "cs \<noteq> []" and "fst (last cs) + wait \<le> now"
  shows "run js does (calls cs @ [TimerExpired now]) s =
     Some (s\<lparr>state := fst (merged s (partials cs)),
       statePrototype := snd (merged s (partials cs)),
       callbackQueue := callbackQueue s @ callbacks cs,
       timer := None,
       inflight := inflight s + 1,
       trace := trace s @ setting_logs js cs @
         publishing js (s\<lparr>state := fst (merged s (partials cs))\<rparr>)\<rparr>)"
proof -
  obtain s1 where s1: "run js does (calls cs) s = Some s1"
      "s1 = s\<lparr>state := fst (merged s (partials cs)),
       statePrototype := snd (merged s (partials cs)),
       callbackQueue := callbackQueue s @ callbacks cs,
       timer := Some (fst (last cs) + wait),
       trace := trace s @ setting_logs js cs\<rparr>"
    using assms(1) by (simp add: run_calls)
  have t: "timer s1 = Some (fst (last cs) + wait)"
    by (simp add: s1(2))
  have "run js does (calls cs @ [TimerExpired now]) s = Some (timerExpired js now s1)"
    by (simp add: run_append s1(1))
  also have "timerExpired js now s1 = s1\<lparr>timer := None, inflight := inflight s1 + 1,
      trace := trace s1 @ publishing js s1\<rparr>"
    using t assms(2) by (rule timerExpired_due)
  finally show ?thesis
    by (simp add: s1(2) publishing_def)
qed



subsection \<open>Callbacks that make no calls\<close>












subsection \<open>The repository's tests, replayed on the model\<close>

text \<open>
  \<open>setStateAndEmit()\<close>: one log line, the callback in the queue, the state merged.
  \<open>sendStateToClients() success\<close> and \<open>error\<close>: two queued callbacks, two calls of the
  debounced function, and a client that completes the publish at once; each callback is
  called once, with no argument or with the error. A second call 15 ms after the first
  restarts the wait. \<open>sendMessage()\<close> and \<open>onMessage()\<close> on both topics.
\<close>

lemmas fixture_defs = sample_js_def sample_documents_def test_base_def new_base_def failed_def
  quote_def wait_def sample_consumer_def

lemmas handler_defs = setStateAndEmit_def sendStateToClients_def timerExpired_def
  sendStateToClients_body_def sendMessage_def publishComplete.simps invoke_def log_def
  Object_assign_def onMessage_def onRemoteStateChange_def Let_def

lemma never_calls_back_sample: "never_calls_back (\<lambda>c e. \<lparr>calls_back = [], throws = None\<rparr>)"
  by (simp add: never_calls_back_def)

lemma test_setStateAndEmit:
  "setStateAndEmit sample_js 0 [(''foo'', JStr ''bar'')] (Some 1) test_base =
     test_base\<lparr>state := [(''foo'', JStr ''bar'')], callbackQueue := [Some 1], timer := Some 20,
       trace := [Log (''Setting state '' @ stringify (JObj [(''foo'', JStr ''bar'')]))]\<rparr>"
  by (simp add: fixture_defs handler_defs)

lemma test_sendStateToClients_success:
  "called_by (step sample_js sample_consumer (PublishDone 20 None) (timerExpired sample_js 20
     (sendStateToClients 0 (sendStateToClients 0
       (test_base\<lparr>state := [(''foo'', JBool True)], callbackQueue := [Some 1, Some 2]\<rparr>))))) =
     Some [(1, None), (2, None)]"
  by (simp add: fixture_defs handler_defs observer_defs)

lemma test_sendStateToClients_error:
  "called_by (step sample_js sample_consumer (PublishDone 20 (Some failed)) (timerExpired sample_js 20
     (sendStateToClients 0 (sendStateToClients 0
       (test_base\<lparr>state := [(''foo'', JBool True)], callbackQueue := [Some 1, Some 2]\<rparr>))))) =
     Some [(1, Some failed), (2, Some failed)]"
  by (simp add: fixture_defs handler_defs observer_defs)

lemma debounce_restarts:
  "published_by (run sample_js sample_consumer
      [SetStateAndEmit 0 [] (Some 1), SetStateAndEmit 15 [] (Some 2), TimerExpired 20]
      test_base) = Some [] \<and>
   published_by (run sample_js sample_consumer
      [SetStateAndEmit 0 [] (Some 1), SetStateAndEmit 15 [] (Some 2), TimerExpired 20,
       TimerExpired 35, TimerExpired 60] test_base) = Some [stringify (JObj [])]"
  by (simp add: fixture_defs handler_defs observer_defs)

lemma test_sendMessage:
  "trace (sendMessage sample_js [(''foo'', JBool True)] test_base) =
     [Log (''Publishing '' @ stringify (JObj [(''foo'', JBool True)]) @ '' to bar/foo''),
      Publish (Some ''bar/foo'') (stringify (JObj [(''foo'', JBool True)]))]"
  by (simp add: fixture_defs handler_defs)

lemma test_onMessage_correct_topic:
  "onMessage sample_js ''foo/bar'' (stringify (JObj [(''foo'', JStr ''bar'')])) test_base =
     (Inr (),
      test_base\<lparr>trace :=
        [Log (''Received '' @ stringify (JObj [(''foo'', JStr ''bar'')]) @ '' from foo/bar''),
         RemoteStateChange (JObj [(''foo'', JStr ''bar'')])]\<rparr>)"
  by (simp add: fixture_defs handler_defs)

lemma test_onMessage_incorrect_topic:
  "onMessage sample_js ''foo'' payload test_base = (Inr (), test_base)"
  by (simp add: fixture_defs handler_defs)

text \<open>
  A callback that calls \<open>setStateAndEmit\<close> while the queue is drained: the callback it
  registers is called by the same completion, and the timer is set anew. And the
  retrying callback, called with an error: the loop of the completion handler never
  ends.
\<close>

lemma reentrant_callback_drained_at_once:
  "called_by (run sample_js sample_consumer
      [SetStateAndEmit 0 [] (Some 8), TimerExpired 20, PublishDone 30 None] test_base) =
     Some [(8, None), (3, None)] \<and>
   map_option timer (run sample_js sample_consumer
      [SetStateAndEmit 0 [] (Some 8), TimerExpired 20, PublishDone 30 None] test_base) = Some (Some 50)"
  by (simp add: fixture_defs handler_defs observer_defs)

lemma retry_never_returns:
  assumes "callbackQueue s = [Some 7]"
  shows "publishComplete js sample_consumer now (Some err) s = None"
proof (rule ccontr)
  assume "publishComplete js sample_consumer now (Some err) s \<noteq> None"
  then obtain r where r: "publishComplete js sample_consumer now (Some err) s = Some r"
    by auto
  have "does = sample_consumer \<and> e = Some err \<and> callbackQueue s' = [Some 7] \<longrightarrow> False"
    if "publishComplete js' does now' e s' = Some r'" for js' does now' e s' r'
  proof (rule publishComplete.raw_induct
      [where P = "\<lambda>js does now e s r.
         does = sample_consumer \<and> e = Some err \<and> callbackQueue s = [Some 7] \<longrightarrow> False",
       OF _ that])
    fix complete and js1 :: builtins and does1 :: consumer and now1 :: nat
      and e1 :: "jserror option" and s1 :: base and r1 :: "(exn + unit) \<times> base"
    assume hyp: "\<And>js does now e s r. complete js does now e s = Some r \<Longrightarrow>
        does = sample_consumer \<and> e = Some err \<and> callbackQueue s = [Some 7] \<longrightarrow> False"
      and unfolded: "(case callbackQueue s1 of [] \<Rightarrow> Some (Inr (), s1)
        | None # queue \<Rightarrow> Some (Inr (), s1\<lparr>callbackQueue := queue\<rparr>)
        | Some callback # queue \<Rightarrow>
            case throws (does1 callback e1) of
              None \<Rightarrow> complete js1 does1 now1 e1
                 (invoke js1 does1 now1 callback e1 (s1\<lparr>callbackQueue := queue\<rparr>))
            | Some x \<Rightarrow> Some (Inl x,
                 invoke js1 does1 now1 callback e1 (s1\<lparr>callbackQueue := queue\<rparr>))) = Some r1"
    show "does1 = sample_consumer \<and> e1 = Some err \<and> callbackQueue s1 = [Some 7] \<longrightarrow> False"
    proof
      assume a: "does1 = sample_consumer \<and> e1 = Some err \<and> callbackQueue s1 = [Some 7]"
      have "complete js1 does1 now1 e1 (invoke js1 does1 now1 7 e1 (s1\<lparr>callbackQueue := []\<rparr>)) =
          Some r1"
        using unfolded a by (simp add: sample_consumer_def)
      moreover have "callbackQueue (invoke js1 does1 now1 7 e1 (s1\<lparr>callbackQueue := []\<rparr>)) =
          [Some 7]"
        using a by (simp add: invoke_queue sample_consumer_def)
      ultimately show False using hyp a by blast
    qed
  qed
  then show False using r assms by blast
qed

section \<open>The coalescer: overlap of a publish in flight and new calls\<close>




section \<open>The coalescer: draining the queue\<close>

text \<open>
  Three calls, the second without a callback, then the timeout and a failed publish: the
  drain calls callback 1, takes the missing callback off and stops; callback 2 is not
  called and stays queued. With callback 9, which throws, queued before callback 2: the
  drain ends with the exception of callback 9, and callback 2 is not called and stays
  queued. With callback 8, which calls \<open>setStateAndEmit\<close> with callback 3, before
  callback 2: the same completion goes on to call callback 3, which was not queued when
  the publish completed.
\<close>

theorem drain_stops_before_later_callbacks_counterexample:
  "called_by (run sample_js sample_consumer
      [SetStateAndEmit 0 [] (Some 1), SetStateAndEmit 1 [] None, SetStateAndEmit 2 [] (Some 2),
       TimerExpired 22, PublishDone 30 (Some failed)] test_base) = Some [(1, Some failed)] \<and>
   queue_of (run sample_js sample_consumer
      [SetStateAndEmit 0 [] (Some 1), SetStateAndEmit 1 [] None, SetStateAndEmit 2 [] (Some 2),
       TimerExpired 22, PublishDone 30 (Some failed)] test_base) = Some [Some 2] \<and>
   called_by (run sample_js sample_consumer
      [SetStateAndEmit 0 [] (Some 9), SetStateAndEmit 2 [] (Some 2),
       TimerExpired 22, PublishDone 30 (Some failed)] test_base) = Some [(9, Some failed)] \<and>
   queue_of (run sample_js sample_consumer
      [SetStateAndEmit 0 [] (Some 9), SetStateAndEmit 2 [] (Some 2),
       TimerExpired 22, PublishDone 30 (Some failed)] test_base) = Some [Some 2] \<and>
   called_by (run sample_js sample_consumer
      [SetStateAndEmit 0 [] (Some 8), SetStateAndEmit 2 [] (Some 2),
       TimerExpired 22, PublishDone 30 (Some failed)] test_base) =
     Some [(8, Some failed), (2, Some failed), (3, Some failed)]"
  by (simp add: fixture_defs handler_defs observer_defs)

text \<open>
  C2, as the code has it. When every entry of the queue is a function that returns
  normally and leaves the instance alone, the completion of a publish calls each queued
  callback exactly once, in the order of registration, all with the same outcome (no
  argument for all, or the same error for all), and returns with the queue empty.
\<close>

theorem completion_calls_each_once_in_order:
  "list_all (quiet does error) (callbackQueue s) \<Longrightarrow>
   publishComplete js does now error s =
     Some (Inr (), s\<lparr>callbackQueue := [],
       trace := trace s @ map (\<lambda>callback. Invoke callback error) (callbacks_of (callbackQueue s))\<rparr>)"
  by (rule publishComplete_quiet)

theorem completion_calls_each_once_in_order_witness:
  "publishComplete sample_js sample_consumer 30 (Some failed)
     (test_base\<lparr>callbackQueue := [Some 1, Some 2]\<rparr>) =
     Some (Inr (), test_base\<lparr>callbackQueue := [],
       trace := [Invoke 1 (Some failed), Invoke 2 (Some failed)]\<rparr>)"
  using completion_calls_each_once_in_order
    [of sample_consumer "Some failed" "test_base\<lparr>callbackQueue := [Some 1, Some 2]\<rparr>" sample_js 30]
  by (simp add: fixture_defs)

section \<open>The coalescer: what is published\<close>

text \<open>
  A partial state with the own key \<open>__proto__\<close>, as \<open>JSON.parse\<close> makes one:
  \<open>Object.assign\<close> gives the key to the setter of \<open>Object.prototype\<close>, which replaces
  the prototype of the state and adds no property. The state keeps no such key, and the
  empty object is published.
\<close>

theorem proto_key_not_merged_counterexample:
  "map_option state (run sample_js sample_consumer
      [SetStateAndEmit 0 [(''__proto__'', JObj [(''on'', JBool True)])] (Some 1)] test_base) =
     Some [] \<and>
   published_by (run sample_js sample_consumer
      [SetStateAndEmit 0 [(''__proto__'', JObj [(''on'', JBool True)])] (Some 1), TimerExpired 20]
      test_base) = Some [stringify (JObj [])]"
  by (simp add: fixture_defs handler_defs observer_defs)

text \<open>
  C3, as the code has it. For a group of calls of \<open>setStateAndEmit\<close> and the timeout
  that follows them (once the last call is \<open>wait\<close> ms old), the state is the state
  before with \<open>Object.assign\<close> applied for each partial state, from the left; the one
  message published is \<open>JSON.stringify\<close> of this whole state; every key but
  \<open>__proto__\<close> holds what the partial states, each overriding the ones before it, give
  it, and the last partial state that names such a key decides it (a key written twice in
  one partial state counts with its last value).
\<close>

theorem published_snapshot_is_left_to_right_merge:
  assumes "cs \<noteq> []" and "fst (last cs) + wait \<le> now"
  shows "map_option state (run js does (calls cs) s) =
      Some (fst (foldl Object_assign (state s, statePrototype s) (partials cs))) \<and>
    published_by (run js does (calls cs @ [TimerExpired now]) s) =
      Some (published (trace s) @
        [JSON_stringify js
          (JObj (fst (foldl Object_assign (state s, statePrototype s) (partials cs))))]) \<and>
    (\<forall>k. k \<noteq> ''__proto__'' \<longrightarrow>
       map_of (fst (foldl Object_assign (state s, statePrototype s) (partials cs))) k =
       foldl (\<lambda>m p. m ++ map_of (rev p)) (map_of (state s)) (partials cs) k) \<and>
    (\<forall>before p after k.
       partials cs = before @ p # after \<and> k \<in> fst ` set p \<and> k \<noteq> ''__proto__'' \<and>
       (\<forall>q\<in>set after. k \<notin> fst ` set q) \<longrightarrow>
       map_of (fst (foldl Object_assign (state s, statePrototype s) (partials cs))) k =
       map_of (rev p) k)"
proof (intro conjI allI impI)
  show "map_option state (run js does (calls cs) s) =
      Some (fst (foldl Object_assign (state s, statePrototype s) (partials cs)))"
    by (simp add: run_calls merged_def)
  show "published_by (run js does (calls cs @ [TimerExpired now]) s) =
      Some (published (trace s) @
        [JSON_stringify js
          (JObj (fst (foldl Object_assign (state s, statePrototype s) (partials cs))))])"
    by (simp add: run_calls_timer [OF assms] published_by_def published_append
        published_setting_logs published_publishing merged_def)
next
  fix k :: string
  assume "k \<noteq> ''__proto__''"
  then show "map_of (fst (foldl Object_assign (state s, statePrototype s) (partials cs))) k =
       foldl (\<lambda>m p. m ++ map_of (rev p)) (map_of (state s)) (partials cs) k"
    using merge_lookup [of k "(state s, statePrototype s)" "partials cs"] by simp
next
  fix before p after k
  assume "partials cs = before @ p # after \<and> k \<in> fst ` set p \<and> k \<noteq> ''__proto__'' \<and>
       (\<forall>q\<in>set after. k \<notin> fst ` set q)"
  then show "map_of (fst (foldl Object_assign (state s, statePrototype s) (partials cs))) k =
       map_of (rev p) k"
    using merge_last_writer [of "partials cs" before p after k "(state s, statePrototype s)"]
    by blast
qed

theorem published_snapshot_is_left_to_right_merge_witness:
  "map_option state (run sample_js sample_consumer
      (calls [(0, [(''on'', JBool True)], Some 1),
              (5, [(''level'', JNum 40), (''on'', JBool False)], Some 2)])
      (test_base\<lparr>state := [(''on'', JBool False), (''name'', JStr ''lamp'')]\<rparr>)) =
     Some [(''on'', JBool False), (''name'', JStr ''lamp''), (''level'', JNum 40)] \<and>
   published_by (run sample_js sample_consumer
      (calls [(0, [(''on'', JBool True)], Some 1),
              (5, [(''level'', JNum 40), (''on'', JBool False)], Some 2)] @ [TimerExpired 25])
      (test_base\<lparr>state := [(''on'', JBool False), (''name'', JStr ''lamp'')]\<rparr>)) =
     Some [stringify (JObj [(''on'', JBool False), (''name'', JStr ''lamp''), (''level'', JNum 40)])]"
  using published_snapshot_is_left_to_right_merge
    [of "[(0, [(''on'', JBool True)], Some 1),
          (5, [(''level'', JNum 40), (''on'', JBool False)], Some 2)]" 25 sample_js sample_consumer
      "test_base\<lparr>state := [(''on'', JBool False), (''name'', JStr ''lamp'')]\<rparr>"]
  by (simp add: fixture_defs partials_def Object_assign_def)

section \<open>The coalescer: one publish for each quiet period\<close>




section \<open>Messages from the broker\<close>

text \<open>
  A message on the subscribed topic whose payload is not JSON: \<open>JSON.parse\<close> throws
  inside \<open>onMessage\<close>, which has no handler for it, so the exception leaves
  \<open>onMessage\<close>.
\<close>

theorem onMessage_malformed_throws_counterexample:
  "JSON_parse sample_js ''{oops'' = None \<and>
   fst (onMessage sample_js ''foo/bar'' ''{oops'' test_base) = Inl SyntaxError"
  by (simp add: fixture_defs handler_defs)

text \<open>
  C5, as the code has it. A message on the subscribed topic whose payload is not valid
  JSON is logged as received (the payload, before it is parsed); then the
  \<open>SyntaxError\<close> of \<open>JSON.parse\<close> is thrown to the caller of \<open>onMessage\<close>, uncaught
  by the class. The hook is not called, and the state, the queue of callbacks and the
  timer are as before.
\<close>

theorem onMessage_malformed_logs_then_throws:
  assumes "outboundTopic s = Some topic" and "JSON_parse js payload = None"
  shows "onMessage js topic payload s =
     (Inl SyntaxError, s\<lparr>trace := trace s @ [Log (''Received '' @ payload @ '' from '' @ topic)]\<rparr>) \<and>
    state (snd (onMessage js topic payload s)) = state s \<and>
    callbackQueue (snd (onMessage js topic payload s)) = callbackQueue s \<and>
    timer (snd (onMessage js topic payload s)) = timer s \<and>
    hooked (trace (snd (onMessage js topic payload s))) = hooked (trace s)"
  using assms by (simp add: onMessage_def log_def hooked_append)

theorem onMessage_malformed_logs_then_throws_witness:
  "onMessage sample_js ''foo/bar'' ''{oops'' test_base =
     (Inl SyntaxError, test_base\<lparr>trace := [Log ''Received {oops from foo/bar'']\<rparr>)"
  using onMessage_malformed_logs_then_throws [of test_base "''foo/bar''" sample_js "''{oops''"]
  by (simp add: fixture_defs)

text \<open>
  The same message, seen from the hook: the topic is the subscribed one, and the hook is
  not called.
\<close>

theorem hook_skipped_on_malformed_payload_counterexample:
  "outboundTopic test_base = Some ''foo/bar'' \<and>
   hooked (trace (snd (onMessage sample_js ''foo/bar'' ''{oops'' test_base))) = []"
  by (simp add: fixture_defs handler_defs)

text \<open>
  C7, as the code has it. For every message, the hook \<open>onRemoteStateChange\<close> is called
  if and only if the topic of the message is the subscribed topic and its payload is
  valid JSON; it is then called once, with the value \<open>JSON.parse\<close> gives for the
  payload. A message on another topic calls no hook, logs nothing and changes nothing.
\<close>

theorem hook_called_iff_topic_and_valid_json:
  "hooked (trace (snd (onMessage js topic payload s))) =
     hooked (trace s) @
     (if outboundTopic s = Some topic
      then (case JSON_parse js payload of None \<Rightarrow> [] | Some remote \<Rightarrow> [remote])
      else []) \<and>
   (hooked (trace (snd (onMessage js topic payload s))) \<noteq> hooked (trace s)) =
     (outboundTopic s = Some topic \<and> JSON_parse js payload \<noteq> None) \<and>
   (outboundTopic s \<noteq> Some topic \<longrightarrow> onMessage js topic payload s = (Inr (), s))"
  by (auto simp: onMessage_def onRemoteStateChange_def log_def hooked_append Let_def
      split: option.splits)

theorem hook_called_iff_topic_and_valid_json_witness:
  "hooked (trace (snd (onMessage sample_js ''foo/bar''
      (stringify (JObj [(''foo'', JStr ''bar'')])) test_base))) = [JObj [(''foo'', JStr ''bar'')]] \<and>
   onMessage sample_js ''foo'' (stringify (JObj [(''foo'', JStr ''bar'')])) test_base =
     (Inr (), test_base)"
  using hook_called_iff_topic_and_valid_json
      [of sample_js "''foo/bar''" "stringify (JObj [(''foo'', JStr ''bar'')])" test_base]
    hook_called_iff_topic_and_valid_json
      [of sample_js "''foo''" "stringify (JObj [(''foo'', JStr ''bar'')])" test_base]
  by (simp add: fixture_defs)

section \<open>The coalescer: when a callback is called\<close>




section \<open>The coalescer: an empty partial state\<close>




section \<open>The coalescer: the keys a call leaves alone\<close>

text \<open>
  C9. A call of \<open>setStateAndEmit\<close> leaves every key of the state that its partial state
  does not name with the value it had.
\<close>

theorem setStateAndEmit_leaves_other_keys:
  "k \<notin> fst ` set partial \<Longrightarrow>
   map_of (state (setStateAndEmit js now partial callback s)) k = map_of (state s) k"
proof -
  assume "k \<notin> fst ` set partial"
  then have "map_of (fst (Object_assign (state s, statePrototype s) partial)) k =
      map_of (fst (state s, statePrototype s)) k"
    by (rule Object_assign_untouched)
  then show ?thesis
    by (simp add: setStateAndEmit_eq)
qed

theorem setStateAndEmit_leaves_other_keys_witness:
  "map_of (state (setStateAndEmit sample_js 0 [(''on'', JBool True)] (Some 1)
      (test_base\<lparr>state := [(''on'', JBool False), (''name'', JStr ''lamp'')]\<rparr>))) ''name'' =
     Some (JStr ''lamp'')"
  using setStateAndEmit_leaves_other_keys
    [of "''name''" "[(''on'', JBool True)]" sample_js 0 "Some 1"
      "test_base\<lparr>state := [(''on'', JBool False), (''name'', JStr ''lamp'')]\<rparr>"]
  by (simp add: fixture_defs)

section \<open>The coalescer: a falsy entry in the queue\<close>

text \<open>
  A queue with callback 9, which throws, before a falsy entry: the completion handler
  ends with the exception of callback 9. The drain does not get to the falsy entry, which
  stays in the queue.
\<close>

theorem throw_ends_drain_before_falsy_entry_counterexample:
  "publishComplete sample_js sample_consumer 30 None
     (test_base\<lparr>callbackQueue := [Some 9, None, Some 2]\<rparr>) =
     Some (Inl (Thrown ''boom''),
       test_base\<lparr>callbackQueue := [None, Some 2], trace := [Invoke 9 None]\<rparr>)"
  by (simp add: fixture_defs handler_defs)

text \<open>
  C10, as the code has it. When the queue holds a falsy entry behind functions that
  return normally (whatever calls of \<open>setStateAndEmit\<close> they make), the completion of a
  publish calls these functions, takes the falsy entry off without calling anything, and
  stops: what was queued behind it is not called and stays in the queue, followed by
  what the called functions pushed. When the entries before and behind the falsy entry
  are functions that return normally and leave the instance alone, the next completion
  calls the ones behind it, with its own outcome.
\<close>

theorem falsy_callback_stops_the_drain:
  "(callbackQueue s = map Some before @ None # after \<and>
    list_all (returning does error) (map Some before) \<longrightarrow>
      (\<exists>s'. publishComplete js does now error s = Some (Inr (), s') \<and>
         called (trace s') = called (trace s) @ map (\<lambda>callback. (callback, error)) before \<and>
         callbackQueue s' =
           after @ concat (map (\<lambda>callback. map snd (calls_back (does callback error))) before))) \<and>
   (callbackQueue s = map Some before @ None # after \<and> 2 \<le> inflight s \<and>
    list_all (quiet does error) (map Some before) \<and> list_all (quiet does later_error) after \<longrightarrow>
      called_by (run js does [PublishDone now error] s) =
        Some (called (trace s) @ map (\<lambda>callback. (callback, error)) before) \<and>
      queue_of (run js does [PublishDone now error] s) = Some after \<and>
      called_by (run js does [PublishDone now error, PublishDone later later_error] s) =
        Some (called (trace s) @ map (\<lambda>callback. (callback, error)) before @
          map (\<lambda>callback. (callback, later_error)) (callbacks_of after)))"
proof (intro conjI impI)
  assume "callbackQueue s = map Some before @ None # after \<and>
    list_all (returning does error) (map Some before)"
  then show "\<exists>s'. publishComplete js does now error s = Some (Inr (), s') \<and>
         called (trace s') = called (trace s) @ map (\<lambda>callback. (callback, error)) before \<and>
         callbackQueue s' =
           after @ concat (map (\<lambda>callback. map snd (calls_back (does callback error))) before)"
    using publishComplete_returning_stop [of s before after does error js now] by blast
next
  assume a: "callbackQueue s = map Some before @ None # after \<and> 2 \<le> inflight s \<and>
    list_all (quiet does error) (map Some before) \<and> list_all (quiet does later_error) after"
  let ?s0 = "s\<lparr>inflight := inflight s - 1\<rparr>"
  let ?s1 = "?s0\<lparr>callbackQueue := after,
       trace := trace ?s0 @ map (\<lambda>c. Invoke c error) (callbacks_of (map Some before))\<rparr>"
  have first: "run js does [PublishDone now error] s = Some ?s1"
    using a publishComplete_quiet_stop [of ?s0 "map Some before" after does error js now]
    by simp
  have cb: "callbacks_of (map Some before) = before"
    by (induction before) simp_all
  show "called_by (run js does [PublishDone now error] s) =
        Some (called (trace s) @ map (\<lambda>callback. (callback, error)) before)"
    unfolding first by (simp add: called_by_def called_append called_invocations cb)
  show "queue_of (run js does [PublishDone now error] s) = Some after"
    unfolding first by (simp add: queue_of_def)
  have q: "list_all (quiet does later_error) (callbackQueue (?s1\<lparr>inflight := inflight ?s1 - 1\<rparr>))"
    using a by simp
  have "run js does [PublishDone now error, PublishDone later later_error] s =
      run js does [PublishDone later later_error] ?s1"
    using run_append [of js does "[PublishDone now error]" "[PublishDone later later_error]" s]
    by (simp only: first append_Cons append_Nil option.case)
  then show "called_by (run js does [PublishDone now error, PublishDone later later_error] s) =
        Some (called (trace s) @ map (\<lambda>callback. (callback, error)) before @
          map (\<lambda>callback. (callback, later_error)) (callbacks_of after))"
    using a publishComplete_quiet [OF q, of js later]
    by (simp add: called_by_def called_append called_invocations cb)
qed

theorem falsy_callback_stops_the_drain_witness:
  "publishComplete sample_js sample_consumer 30 (Some failed)
     (test_base\<lparr>callbackQueue := [Some 8, None, Some 2]\<rparr>) =
   Some (Inr (),
     test_base\<lparr>callbackQueue := [Some 2, Some 3], state := [(''level'', JNum 40)], timer := Some 50,
       trace := [Invoke 8 (Some failed),
         Log (''Setting state '' @ stringify (JObj [(''level'', JNum 40)]))]\<rparr>) \<and>
   called_by (run sample_js sample_consumer [PublishDone 30 (Some failed), PublishDone 31 None]
     (test_base\<lparr>callbackQueue := [Some 1, None, Some 2, Some 3], inflight := 2\<rparr>)) =
     Some [(1, Some failed), (2, None), (3, None)]"
  using falsy_callback_stops_the_drain
    [of "test_base\<lparr>callbackQueue := [Some 8, None, Some 2]\<rparr>" "[8]" "[Some 2]" sample_consumer
      "Some failed" sample_js 30 None 31]
    falsy_callback_stops_the_drain
    [of "test_base\<lparr>callbackQueue := [Some 1, None, Some 2, Some 3], inflight := 2\<rparr>" "[1]"
      "[Some 2, Some 3]" sample_consumer "Some failed" sample_js 30 None 31]
  by (simp add: fixture_defs handler_defs observer_defs)

end
